theory Spec2Isabelle
  imports Complex_Main
begin

section \<open>Strings\<close>

text \<open>
  A Python \<^verbatim>\<open>str\<close> is a sequence of Unicode code points, so it is modelled as a list of
  natural numbers. \<open>str\<close> turns an ASCII literal into that representation; the code points
  the program names are \<open>10\<close> (newline), \<open>32\<close> (space), \<open>96\<close> (backtick), \<open>123\<close>, \<open>37\<close>
  and \<open>125\<close> (the characters of \<^verbatim>\<open>{%\<close> and \<^verbatim>\<open>%}\<close>).
\<close>

type_synonym pystr = "nat list"

definition str :: "string \<Rightarrow> pystr" where
  "str s = map of_char s"

text \<open>
  \<^verbatim>\<open>\s\<close> in a \<^verbatim>\<open>str\<close> pattern and \<^verbatim>\<open>str.strip()\<close> both use Python's Unicode whitespace
  test: the code points U+0009--U+000D, U+001C--U+0020, U+0085, U+00A0, U+1680,
  U+2000--U+200A, U+2028, U+2029, U+202F, U+205F and U+3000.
\<close>

definition isspace :: "nat \<Rightarrow> bool" where
  "isspace c =
     ((9 \<le> c \<and> c \<le> 13) \<or> (28 \<le> c \<and> c \<le> 32) \<or> c = 133 \<or> c = 160 \<or> c = 5760
      \<or> (8192 \<le> c \<and> c \<le> 8202) \<or> c = 8232 \<or> c = 8233 \<or> c = 8239 \<or> c = 8287
      \<or> c = 12288)"

text \<open>\<^verbatim>\<open>[a-zA-Z]\<close> without \<^verbatim>\<open>re.IGNORECASE\<close>: the 52 ASCII letters.\<close>

definition ascii_alpha :: "nat \<Rightarrow> bool" where
  "ascii_alpha c = ((97 \<le> c \<and> c \<le> 122) \<or> (65 \<le> c \<and> c \<le> 90))"

section \<open>The regular expressions of \<^verbatim>\<open>markdown_to_text\<close>\<close>

subsection \<open>Fenced code blocks (lines 51--56)\<close>

text \<open>
  \<^verbatim>\<open>re.sub(r"(^|\n)\s*```(?:[^\n]*)?\n[\s\S]*?\n\s*```", "\n", s, flags=re.MULTILINE)\<close>

  The pieces of the pattern, in the order the matcher tries them:
  \<^item> \<open>fence_open\<close> is \<^verbatim>\<open>\s*```(?:[^\n]*)?\n\<close>: the greedy \<^verbatim>\<open>\s*\<close> must take the whole run of
    whitespace (a shorter run leaves a whitespace character where a backtick is needed), and
    \<^verbatim>\<open>[^\n]*\<close> must run to the next newline, which \<^verbatim>\<open>\n\<close> then consumes; with no newline
    left there is no match.
  \<^item> \<open>fence_close\<close> is \<^verbatim>\<open>[\s\S]*?\n\s*```\<close>: the lazy \<^verbatim>\<open>[\s\S]*?\<close> stops at the first newline
    after which a run of whitespace is followed by three backticks.
  \<^item> \<open>fence_match\<close> is the whole pattern at one position: the alternative \<^verbatim>\<open>^\<close> (under
    \<^verbatim>\<open>re.MULTILINE\<close>: the start of the string or the position after a newline) first, then the
    alternative that consumes a newline. It returns what follows the match.
\<close>

definition backticks :: pystr where
  "backticks = [96, 96, 96]"

definition fence_open :: "pystr \<Rightarrow> pystr option" where
  "fence_open s =
     (let t = dropWhile isspace s in
      if take 3 t = backticks then
        (case dropWhile (\<lambda>c. c \<noteq> 10) (drop 3 t) of
           [] \<Rightarrow> None
         | nl # body \<Rightarrow> Some body)
      else None)"

fun fence_close :: "pystr \<Rightarrow> pystr option" where
  "fence_close [] = None"
| "fence_close (c # cs) =
     (if c = 10 \<and> take 3 (dropWhile isspace cs) = backticks
      then Some (drop 3 (dropWhile isspace cs))
      else fence_close cs)"

definition fence_rest :: "pystr \<Rightarrow> pystr option" where
  "fence_rest s = (case fence_open s of None \<Rightarrow> None | Some body \<Rightarrow> fence_close body)"

definition fence_match :: "bool \<Rightarrow> pystr \<Rightarrow> pystr option" where
  "fence_match at_line_start s =
     (case (if at_line_start then fence_rest s else None) of
        Some rest \<Rightarrow> Some rest
      | None \<Rightarrow>
          (case s of
             [] \<Rightarrow> None
           | c # cs \<Rightarrow> if c = 10 then fence_rest cs else None))"

lemma fence_close_length: "fence_close s = Some r \<Longrightarrow> length r < length s"
proof (induction s)
  case Nil
  then show ?case by simp
next
  case (Cons c cs)
  have "length (drop 3 (dropWhile isspace cs)) \<le> length cs"
    using length_dropWhile_le [of isspace cs] by simp
  with Cons show ?case
    by (auto split: if_splits)
qed

lemma fence_open_length: "fence_open s = Some r \<Longrightarrow> length r < length s"
proof -
  assume a: "fence_open s = Some r"
  let ?t = "dropWhile isspace s"
  let ?u = "dropWhile (\<lambda>c. c \<noteq> 10) (drop 3 ?t)"
  from a obtain nl where u: "?u = nl # r"
    by (auto simp: fence_open_def Let_def split: if_splits list.splits)
  have "length ?u \<le> length (drop 3 ?t)"
    by (rule length_dropWhile_le)
  moreover have "length (drop 3 ?t) \<le> length s"
    using length_dropWhile_le [of isspace s] by simp
  ultimately show ?thesis
    using u by simp
qed

lemma fence_rest_length: "fence_rest s = Some r \<Longrightarrow> length r < length s"
  unfolding fence_rest_def
  by (auto split: option.splits dest!: fence_open_length fence_close_length)

lemma fence_match_length: "fence_match b s = Some r \<Longrightarrow> length r < length s"
  unfolding fence_match_def
  by (auto split: option.splits list.splits if_splits dest!: fence_rest_length)

text \<open>
  \<^verbatim>\<open>re.sub\<close> scans from the left: where the pattern matches, the match is replaced by one
  newline and the scan goes on behind it (a match ends in a backtick, so that position does not
  start a line); elsewhere the character is copied.
\<close>

function sub_fenced_code :: "bool \<Rightarrow> pystr \<Rightarrow> pystr" where
  "sub_fenced_code at_line_start [] = []"
| "sub_fenced_code at_line_start (c # cs) =
     (case fence_match at_line_start (c # cs) of
        Some rest \<Rightarrow> 10 # sub_fenced_code False rest
      | None \<Rightarrow> c # sub_fenced_code (c = 10) cs)"
  by pat_completeness auto
termination
  by (relation "measure (\<lambda>(b, s). length s)") (auto dest: fence_match_length)

subsection \<open>Template tags, newline runs, wrapped lines (lines 70--72)\<close>

text \<open>
  \<^verbatim>\<open>re.sub(r'{%[\s\S]*?%}', '', text)\<close>: where \<^verbatim>\<open>{%\<close> stands, the lazy \<^verbatim>\<open>[\s\S]*?\<close> runs to the
  first \<^verbatim>\<open>%}\<close> behind it (\<open>tag_close\<close> returns what follows), and the match is deleted; with no
  \<^verbatim>\<open>%}\<close> left, the character is copied.
\<close>

fun tag_close :: "pystr \<Rightarrow> pystr option" where
  "tag_close (a # b # cs) = (if a = 37 \<and> b = 125 then Some cs else tag_close (b # cs))"
| "tag_close cs = None"

lemma tag_close_length: "tag_close s = Some r \<Longrightarrow> length r < length s"
  by (induction s rule: tag_close.induct) (auto split: if_splits)

function sub_template_tags :: "pystr \<Rightarrow> pystr" where
  "sub_template_tags (a # b # cs) =
     (if a = 123 \<and> b = 37 then
        (case tag_close cs of
           Some rest \<Rightarrow> sub_template_tags rest
         | None \<Rightarrow> a # sub_template_tags (b # cs))
      else a # sub_template_tags (b # cs))"
| "sub_template_tags [a] = [a]"
| "sub_template_tags [] = []"
  by pat_completeness auto
termination
  by (relation "measure length") (auto dest: tag_close_length)

text \<open>\<^verbatim>\<open>re.sub(r'\n+', '\n', text)\<close>: a greedy run of newlines becomes one newline.\<close>

function sub_newline_runs :: "pystr \<Rightarrow> pystr" where
  "sub_newline_runs [] = []"
| "sub_newline_runs (c # cs) =
     (if c = 10 then 10 # sub_newline_runs (dropWhile (\<lambda>x. x = 10) cs)
      else c # sub_newline_runs cs)"
  by pat_completeness auto
termination
  by (relation "measure length") (auto simp: le_imp_less_Suc length_dropWhile_le)

text \<open>
  \<^verbatim>\<open>re.sub(r'([a-zA-Z])\n', r'\1 ', text)\<close>: an ASCII letter and the newline behind it become
  the letter and a space, and the scan goes on behind the newline.
\<close>

fun sub_wrapped_newlines :: "pystr \<Rightarrow> pystr" where
  "sub_wrapped_newlines (a # b # cs) =
     (if ascii_alpha a \<and> b = 10 then a # 32 # sub_wrapped_newlines cs
      else a # sub_wrapped_newlines (b # cs))"
| "sub_wrapped_newlines cs = cs"

section \<open>The parse tree (lines 58--69)\<close>

text \<open>
  \<^verbatim>\<open>BeautifulSoup(html, "html.parser")\<close> builds a tree of tags (a name, attributes, children)
  and text strings; a document is the list of its top-level nodes.
\<close>

datatype node = Text pystr | Tag string "(string \<times> pystr) list" "node list"

text \<open>
  Lines 62--63: \<^verbatim>\<open>find_all\<close> collects every tag with one of the names, in document order, and
  \<^verbatim>\<open>decompose\<close> removes each with its subtree (a tag inside an already removed one is gone with
  it).
\<close>

definition unwanted :: "string list" where
  "unwanted = [''table'', ''script'', ''blockquote'', ''hr'', ''img'', ''ul'', ''ol'', ''li'',
     ''h1'', ''h2'', ''h3'', ''h4'', ''h5'', ''h6'']"

fun decompose :: "node \<Rightarrow> node list"
  and decompose_all :: "node list \<Rightarrow> node list" where
  "decompose (Text t) = [Text t]"
| "decompose (Tag name attrs children) =
     (if name \<in> set unwanted then [] else [Tag name attrs (decompose_all children)])"
| "decompose_all [] = []"
| "decompose_all (n # ns) = decompose n @ decompose_all ns"

text \<open>
  Lines 66--67: every \<^verbatim>\<open>a\<close> tag is replaced by one string, its \<^verbatim>\<open>get_text()\<close>: the strings
  below it, concatenated. (A link inside a link leaves the tree with the outer one.)
\<close>

fun get_text :: "node \<Rightarrow> pystr"
  and get_text_all :: "node list \<Rightarrow> pystr" where
  "get_text (Text t) = t"
| "get_text (Tag name attrs children) = get_text_all children"
| "get_text_all [] = []"
| "get_text_all (n # ns) = get_text n @ get_text_all ns"

fun replace_links :: "node \<Rightarrow> node"
  and replace_links_all :: "node list \<Rightarrow> node list" where
  "replace_links (Text t) = Text t"
| "replace_links (Tag name attrs children) =
     (if name = ''a'' then Text (get_text_all children)
      else Tag name attrs (replace_links_all children))"
| "replace_links_all [] = []"
| "replace_links_all (n # ns) = replace_links n # replace_links_all ns"

text \<open>
  Line 69: \<^verbatim>\<open>soup.stripped_strings\<close> yields every string of the tree in document order,
  stripped of leading and trailing whitespace, leaving out the ones that are empty then.
\<close>

fun strings :: "node \<Rightarrow> pystr list"
  and strings_all :: "node list \<Rightarrow> pystr list" where
  "strings (Text t) = [t]"
| "strings (Tag name attrs children) = strings_all children"
| "strings_all [] = []"
| "strings_all (n # ns) = strings n @ strings_all ns"

definition strip :: "pystr \<Rightarrow> pystr" where
  "strip s = rev (dropWhile isspace (rev (dropWhile isspace s)))"

definition stripped_strings :: "node list \<Rightarrow> pystr list" where
  "stripped_strings soup = filter (\<lambda>s. s \<noteq> []) (map strip (strings_all soup))"

section \<open>\<^verbatim>\<open>markdown_to_text\<close> (lines 46--73)\<close>

text \<open>
  The two libraries the function calls are parameters: \<open>markdown\<close> is
  \<^verbatim>\<open>markdown.markdown\<close> (Markdown source to HTML source) and \<open>BeautifulSoup\<close> is
  \<^verbatim>\<open>BeautifulSoup(html, "html.parser")\<close>. \<open>soup_to_text\<close> is the function's own work on
  the tree and on the text (lines 62--73).
\<close>

record markup =
  markdown :: "pystr \<Rightarrow> pystr"
  BeautifulSoup :: "pystr \<Rightarrow> node list"

definition soup_to_text :: "node list \<Rightarrow> pystr" where
  "soup_to_text soup =
     (let soup = decompose_all soup;
          soup = replace_links_all soup;
          text = concat (stripped_strings soup);
          text = sub_template_tags text;
          text = sub_newline_runs text
      in sub_wrapped_newlines text)"

definition markdown_to_text :: "markup \<Rightarrow> pystr \<Rightarrow> pystr" where
  "markdown_to_text lib markdown_string =
     (let markdown_string = sub_fenced_code True markdown_string;
          html = markdown lib markdown_string;
          soup = BeautifulSoup lib html
      in soup_to_text soup)"

text \<open>The value of \<^verbatim>\<open>text\<close> behind line 71, before the last substitution.\<close>

definition collapsed_text :: "markup \<Rightarrow> pystr \<Rightarrow> pystr" where
  "collapsed_text lib markdown_string =
     (let markdown_string = sub_fenced_code True markdown_string;
          html = markdown lib markdown_string;
          soup = BeautifulSoup lib html;
          soup = decompose_all soup;
          soup = replace_links_all soup;
          text = concat (stripped_strings soup);
          text = sub_template_tags text
      in sub_newline_runs text)"

section \<open>The composite score (lines 75--108)\<close>

text \<open>
  In this section Python's floats are real numbers and the arithmetic is exact; the loop
  with the rounding of every operation follows in the next section. A division by zero
  raises, as it does for Python floats.
\<close>

datatype py_error = ZeroDivisionError | LibraryError

record calibration =
  weight :: real
  min_val :: real
  max_val :: real

text \<open>The dictionary \<^verbatim>\<open>readability_metrics\<close>, in the order a loop over its items visits it.\<close>

definition readability_metrics :: "(string \<times> calibration) list" where
  "readability_metrics =
     [(''flesch_reading_ease'', \<lparr>weight = 0.1653977378, min_val = 0, max_val = 100\<rparr>),
      (''gunning_fog'', \<lparr>weight = 0.2228367277, min_val = 19, max_val = 6\<rparr>),
      (''coleman_liau_index'', \<lparr>weight = 0.1831723411, min_val = 19, max_val = 6\<rparr>),
      (''automated_readability_index'', \<lparr>weight = 0.2325290236, min_val = 22, max_val = 6\<rparr>),
      (''dale_chall_readability_score'', \<lparr>weight = 0.1960641698, min_val = 11, max_val = 4.9\<rparr>)]"

definition normalize_score :: "real \<Rightarrow> real \<Rightarrow> real \<Rightarrow> py_error + real" where
  "normalize_score score min_v max_v =
     (if max_v - min_v = 0 then Inl ZeroDivisionError
      else Inr ((score - min_v) / (max_v - min_v)))"

text \<open>\<^verbatim>\<open>d.get(key, default)\<close> on a dictionary.\<close>

definition dict_get :: "('k \<rightharpoonup> 'v) \<Rightarrow> 'k \<Rightarrow> 'v \<Rightarrow> 'v" where
  "dict_get d key dflt = (case d key of None \<Rightarrow> dflt | Some v \<Rightarrow> v)"

text \<open>
  Lines 98--105: the loop over the items of a metric table, adding each metric's weighted
  normalized score to the running sum; \<^verbatim>\<open>scores.get(metric, 0)\<close> reads a missing score as 0.
\<close>

fun weighted_normalized_score_sum ::
  "(string \<times> calibration) list \<Rightarrow> (string \<rightharpoonup> real) \<Rightarrow> real \<Rightarrow> py_error + real" where
  "weighted_normalized_score_sum [] scores acc = Inr acc"
| "weighted_normalized_score_sum ((metric, values) # items) scores acc =
     (let score = dict_get scores metric 0 in
      case normalize_score score (min_val values) (max_val values) of
        Inl e \<Rightarrow> Inl e
      | Inr normalized_score \<Rightarrow>
          weighted_normalized_score_sum items scores (acc + weight values * normalized_score))"

text \<open>Lines 98--108: the composite score of a dictionary of raw scores.\<close>

definition composite_score :: "(string \<rightharpoonup> real) \<Rightarrow> py_error + real" where
  "composite_score scores =
     (case weighted_normalized_score_sum readability_metrics scores 0 of
        Inl e \<Rightarrow> Inl e
      | Inr s \<Rightarrow> Inr (s * 100))"

text \<open>
  The five functions of \<^verbatim>\<open>textstat\<close> are parameters: each returns the metric's raw value on a
  text, or raises.
\<close>

record textstat =
  flesch_reading_ease :: "pystr \<Rightarrow> py_error + real"
  gunning_fog :: "pystr \<Rightarrow> py_error + real"
  coleman_liau_index :: "pystr \<Rightarrow> py_error + real"
  automated_readability_index :: "pystr \<Rightarrow> py_error + real"
  dale_chall_readability_score :: "pystr \<Rightarrow> py_error + real"

text \<open>
  Lines 90--96: the dictionary \<^verbatim>\<open>scores\<close>; its values are computed in the order written, and
  the first metric that raises ends the call.
\<close>

definition raw_scores :: "textstat \<Rightarrow> pystr \<Rightarrow> py_error + (string \<rightharpoonup> real)" where
  "raw_scores ts text =
     (case flesch_reading_ease ts text of Inl e \<Rightarrow> Inl e | Inr fre \<Rightarrow>
     (case gunning_fog ts text of Inl e \<Rightarrow> Inl e | Inr fog \<Rightarrow>
     (case coleman_liau_index ts text of Inl e \<Rightarrow> Inl e | Inr cli \<Rightarrow>
     (case automated_readability_index ts text of Inl e \<Rightarrow> Inl e | Inr ari \<Rightarrow>
     (case dale_chall_readability_score ts text of Inl e \<Rightarrow> Inl e | Inr dcr \<Rightarrow>
        Inr [''flesch_reading_ease'' \<mapsto> fre,
             ''gunning_fog'' \<mapsto> fog,
             ''coleman_liau_index'' \<mapsto> cli,
             ''automated_readability_index'' \<mapsto> ari,
             ''dale_chall_readability_score'' \<mapsto> dcr])))))"

definition calculate_readability :: "markup \<Rightarrow> textstat \<Rightarrow> pystr \<Rightarrow> py_error + real" where
  "calculate_readability lib ts content =
     (let text = markdown_to_text lib content in
      case raw_scores ts text of
        Inl e \<Rightarrow> Inl e
      | Inr scores \<Rightarrow> composite_score scores)"

section \<open>The composite score in double precision\<close>

text \<open>
  The same loop with the arithmetic of the program: every number is a double, and every
  operation returns the double nearest to the exact result, a tie going to the even
  significand. \<open>ulp_exponent x\<close> is the exponent of the spacing of the doubles around \<open>x\<close>:
  53 significant bits, and the spacing \<open>2 powr (- 1074)\<close> of the subnormal numbers.
  \<open>fl x\<close> is the double nearest to \<open>x\<close>; \<open>fl_pos\<close> is the same for a positive number.
  Results beyond the largest double are outside the model.
\<close>

definition round_half_even :: "real \<Rightarrow> int" where
  "round_half_even x =
     (let f = \<lfloor>x\<rfloor>; d = x - of_int f in
      if d < 1/2 then f else if 1/2 < d then f + 1 else if even f then f else f + 1)"

definition ulp_exponent :: "real \<Rightarrow> int" where
  "ulp_exponent x = max (\<lfloor>log 2 \<bar>x\<bar>\<rfloor> - 52) (- 1074)"

definition fl :: "real \<Rightarrow> real" where
  "fl x =
     (if x = 0 then 0
      else sgn x * (of_int (round_half_even (\<bar>x\<bar> / 2 powr of_int (ulp_exponent x)))
             * 2 powr of_int (ulp_exponent x)))"

definition fl_pos :: "real \<Rightarrow> real" where
  "fl_pos x = of_int (round_half_even (x / 2 powr of_int (ulp_exponent x)))
      * 2 powr of_int (ulp_exponent x)"

text \<open>
  The table as the program holds it (each decimal literal is read as the nearest double),
  and lines 83--108 with every operation rounded.
\<close>

definition readability_metrics_f64 :: "(string \<times> calibration) list" where
  "readability_metrics_f64 =
     map (\<lambda>(name, c). (name, \<lparr>weight = fl (weight c), min_val = fl (min_val c),
       max_val = fl (max_val c)\<rparr>)) readability_metrics"

definition normalize_score_f64 :: "real \<Rightarrow> real \<Rightarrow> real \<Rightarrow> py_error + real" where
  "normalize_score_f64 score min_v max_v =
     (if fl (max_v - min_v) = 0 then Inl ZeroDivisionError
      else Inr (fl (fl (score - min_v) / fl (max_v - min_v))))"

fun weighted_normalized_score_sum_f64 ::
  "(string \<times> calibration) list \<Rightarrow> (string \<rightharpoonup> real) \<Rightarrow> real \<Rightarrow> py_error + real" where
  "weighted_normalized_score_sum_f64 [] scores acc = Inr acc"
| "weighted_normalized_score_sum_f64 ((metric, values) # items) scores acc =
     (let score = dict_get scores metric 0 in
      case normalize_score_f64 score (min_val values) (max_val values) of
        Inl e \<Rightarrow> Inl e
      | Inr normalized_score \<Rightarrow>
          weighted_normalized_score_sum_f64 items scores
            (fl (acc + fl (weight values * normalized_score))))"

definition composite_score_f64 :: "(string \<rightharpoonup> real) \<Rightarrow> py_error + real" where
  "composite_score_f64 scores =
     (case weighted_normalized_score_sum_f64 readability_metrics_f64 scores 0 of
        Inl e \<Rightarrow> Inl e
      | Inr s \<Rightarrow> Inr (fl (s * 100)))"

section \<open>Places in a tree, and example libraries\<close>

text \<open>
  A place in a document: among the top-level nodes (\<open>Here\<close>, with the nodes before and
  after it), or among the children of a tag at some place (\<open>Below\<close>). \<open>plug\<close> puts nodes
  there.
\<close>

datatype place =
    Here "node list" "node list"
  | Below "node list" string "(string \<times> pystr) list" place "node list"

fun plug :: "place \<Rightarrow> node list \<Rightarrow> node list" where
  "plug (Here before after) ns = before @ ns @ after"
| "plug (Below before name attrs inner after) ns =
     before @ [Tag name attrs (plug inner ns)] @ after"

text \<open>
  Libraries to instantiate the parameters with: a renderer and a parser that return one
  fixed HTML source and one fixed tree, and metric functions that return fixed values.
\<close>

definition rendering :: "pystr \<Rightarrow> node list \<Rightarrow> markup" where
  "rendering html soup = \<lparr>markdown = (\<lambda>s. html), BeautifulSoup = (\<lambda>h. soup)\<rparr>"

definition constant_textstat :: "real \<Rightarrow> real \<Rightarrow> real \<Rightarrow> real \<Rightarrow> real \<Rightarrow> textstat" where
  "constant_textstat fre fog cli ari dcr =
     \<lparr>flesch_reading_ease = (\<lambda>text. Inr fre),
      gunning_fog = (\<lambda>text. Inr fog),
      coleman_liau_index = (\<lambda>text. Inr cli),
      automated_readability_index = (\<lambda>text. Inr ari),
      dale_chall_readability_score = (\<lambda>text. Inr dcr)\<rparr>"

section \<open>Properties of the composite score\<close>

lemmas eval_fence = str_def fence_match_def fence_rest_def fence_open_def isspace_def
  backticks_def

lemmas eval_soup = soup_to_text_def stripped_strings_def strip_def str_def isspace_def
  unwanted_def ascii_alpha_def

lemma weighted_sum_closed:
  "list_all (\<lambda>(name, c). max_val c \<noteq> min_val c) items \<Longrightarrow>
   weighted_normalized_score_sum items scores acc =
     Inr (acc + (\<Sum>(name, c) \<leftarrow> items.
        weight c * ((dict_get scores name 0 - min_val c) / (max_val c - min_val c))))"
  by (induction items arbitrary: acc) (auto simp: normalize_score_def Let_def algebra_simps)

lemma table_bounds_differ:
  "list_all (\<lambda>(name, c). max_val c \<noteq> min_val c) readability_metrics"
  by (simp add: readability_metrics_def)

lemma composite_closed:
  "composite_score scores =
     Inr (100 * (\<Sum>(name, c) \<leftarrow> readability_metrics.
        weight c * ((dict_get scores name 0 - min_val c) / (max_val c - min_val c))))"
  by (simp add: composite_score_def weighted_sum_closed [OF table_bounds_differ])

lemma composite_explicit:
  "composite_score scores =
     Inr (100 * (0.1653977378 * ((dict_get scores ''flesch_reading_ease'' 0 - 0) / (100 - 0))
       + 0.2228367277 * ((dict_get scores ''gunning_fog'' 0 - 19) / (6 - 19))
       + 0.1831723411 * ((dict_get scores ''coleman_liau_index'' 0 - 19) / (6 - 19))
       + 0.2325290236 * ((dict_get scores ''automated_readability_index'' 0 - 22) / (6 - 22))
       + 0.1960641698 * ((dict_get scores ''dale_chall_readability_score'' 0 - 11) / (4.9 - 11))))"
  unfolding composite_closed by (simp add: readability_metrics_def)

text \<open>
  Claim C1. For every input, when the five metrics return the raw values \<open>raw name\<close> on the
  normalized text, \<^verbatim>\<open>calculate_readability\<close> returns 100 times the sum, over the rows of
  the fixed table, of \<open>weight * (raw - min) / (max - min)\<close>: the normalized values are not
  clamped and the result is not rounded.
\<close>

theorem calculate_readability_formula:
  assumes "text = markdown_to_text lib content"
    and "flesch_reading_ease ts text = Inr (raw ''flesch_reading_ease'')"
    and "gunning_fog ts text = Inr (raw ''gunning_fog'')"
    and "coleman_liau_index ts text = Inr (raw ''coleman_liau_index'')"
    and "automated_readability_index ts text = Inr (raw ''automated_readability_index'')"
    and "dale_chall_readability_score ts text = Inr (raw ''dale_chall_readability_score'')"
  shows "calculate_readability lib ts content =
     Inr (100 * (\<Sum>(name, c) \<leftarrow> readability_metrics.
        weight c * ((raw name - min_val c) / (max_val c - min_val c))))"
  using assms
  by (simp add: calculate_readability_def raw_scores_def composite_closed dict_get_def
      readability_metrics_def)

theorem calculate_readability_formula_witness:
  "calculate_readability
     (rendering (str ''<p>Short text.</p>'') [Tag ''p'' [] [Text (str ''Short text.'')]])
     (constant_textstat 80 8 9 7 6) (str ''Short text.'') =
     Inr (100 * (\<Sum>(name, c) \<leftarrow> readability_metrics.
        weight c * ((dict_get [''flesch_reading_ease'' \<mapsto> 80, ''gunning_fog'' \<mapsto> 8,
           ''coleman_liau_index'' \<mapsto> 9, ''automated_readability_index'' \<mapsto> 7,
           ''dale_chall_readability_score'' \<mapsto> 6] name 0 - min_val c)
          / (max_val c - min_val c))))"
  using calculate_readability_formula [of
      "markdown_to_text
         (rendering (str ''<p>Short text.</p>'') [Tag ''p'' [] [Text (str ''Short text.'')]])
         (str ''Short text.'')"
      "rendering (str ''<p>Short text.</p>'') [Tag ''p'' [] [Text (str ''Short text.'')]]"
      "str ''Short text.''" "constant_textstat 80 8 9 7 6"
      "\<lambda>name. dict_get [''flesch_reading_ease'' \<mapsto> 80, ''gunning_fog'' \<mapsto> 8,
           ''coleman_liau_index'' \<mapsto> 9, ''automated_readability_index'' \<mapsto> 7,
           ''dale_chall_readability_score'' \<mapsto> 6] name 0"]
  by (simp add: constant_textstat_def dict_get_def)

text \<open>
  In exact arithmetic the composite score is strictly monotonic in each raw score, the
  others held fixed: increasing in \<^verbatim>\<open>flesch_reading_ease\<close>, decreasing in the other four.
\<close>

lemma composite_score_strict_exact:
  assumes "x < y"
  shows "(\<exists>a b. composite_score (scores(''flesch_reading_ease'' \<mapsto> x)) = Inr a
            \<and> composite_score (scores(''flesch_reading_ease'' \<mapsto> y)) = Inr b \<and> a < b)
       \<and> (\<exists>a b. composite_score (scores(''gunning_fog'' \<mapsto> x)) = Inr a
            \<and> composite_score (scores(''gunning_fog'' \<mapsto> y)) = Inr b \<and> b < a)
       \<and> (\<exists>a b. composite_score (scores(''coleman_liau_index'' \<mapsto> x)) = Inr a
            \<and> composite_score (scores(''coleman_liau_index'' \<mapsto> y)) = Inr b \<and> b < a)
       \<and> (\<exists>a b. composite_score (scores(''automated_readability_index'' \<mapsto> x)) = Inr a
            \<and> composite_score (scores(''automated_readability_index'' \<mapsto> y)) = Inr b
            \<and> b < a)
       \<and> (\<exists>a b. composite_score (scores(''dale_chall_readability_score'' \<mapsto> x)) = Inr a
            \<and> composite_score (scores(''dale_chall_readability_score'' \<mapsto> y)) = Inr b
            \<and> b < a)"
  using assms
  by (simp add: composite_explicit dict_get_def)

text \<open>
  The loop of lines 98--108 returns a value for every dictionary of raw scores: no row of
  the table has \<open>max = min\<close>, so no division of \<^verbatim>\<open>normalize_score\<close> raises. Whether a
  metric raises on a text with no words is decided inside \<^verbatim>\<open>textstat\<close>; when one does,
  \<^verbatim>\<open>calculate_readability\<close> raises with it.
\<close>

lemma composite_score_defined: "\<exists>v. composite_score scores = Inr v"
  by (simp add: composite_closed)

lemma calculate_readability_raises:
  "flesch_reading_ease ts (markdown_to_text lib content) = Inl e \<Longrightarrow>
   calculate_readability lib ts content = Inl e"
  by (simp add: calculate_readability_def raw_scores_def)

text \<open>
  Claim C8. The five weights of the table sum to exactly 1 and each is positive, and the
  composite score of any dictionary of raw scores is 100 times the sum of the weighted
  normalized scores: 100 times a convex combination of the normalized scores.
\<close>

theorem weights_convex:
  "sum_list (map (\<lambda>(name, c). weight c) readability_metrics) = 1
   \<and> map (\<lambda>(name, c). weight c) readability_metrics =
       [0.1653977378, 0.2228367277, 0.1831723411, 0.2325290236, 0.1960641698]
   \<and> list_all (\<lambda>(name, c). 0 < weight c) readability_metrics
   \<and> composite_score scores =
       Inr (100 * (\<Sum>(name, c) \<leftarrow> readability_metrics.
          weight c * ((dict_get scores name 0 - min_val c) / (max_val c - min_val c))))"
  using composite_closed [of scores]
  by (simp add: readability_metrics_def)

section \<open>Properties of the composite score in double precision\<close>

text \<open>
  Rounding is monotonic, keeps the sign, and leaves a number with a significand below
  \<open>2 ^ 53\<close> as it is.
\<close>

lemma rhe_floor: "\<lfloor>x\<rfloor> \<le> round_half_even x" "round_half_even x \<le> \<lfloor>x\<rfloor> + 1"
  by (auto simp: round_half_even_def Let_def)

lemma rhe_int: "round_half_even (of_int n) = n"
  by (simp add: round_half_even_def)

lemma rhe_mono: "x \<le> y \<Longrightarrow> round_half_even x \<le> round_half_even y"
proof -
  assume le: "x \<le> y"
  then have fl: "\<lfloor>x\<rfloor> \<le> \<lfloor>y\<rfloor>" by (rule floor_mono)
  show ?thesis
  proof (cases "\<lfloor>x\<rfloor> < \<lfloor>y\<rfloor>")
    case True
    then show ?thesis using rhe_floor(2) [of x] rhe_floor(1) [of y] by linarith
  next
    case False
    then have eq: "\<lfloor>x\<rfloor> = \<lfloor>y\<rfloor>" using fl by simp
    then show ?thesis using le
      by (auto simp: round_half_even_def Let_def)
  qed
qed

lemma rhe_near: "\<bar>x - of_int n\<bar> < 1/2 \<Longrightarrow> round_half_even x = n"
proof -
  assume a: "\<bar>x - of_int n\<bar> < 1/2"
  show ?thesis
  proof (cases "of_int n \<le> x")
    case True
    then have "\<lfloor>x\<rfloor> = n" using a by (intro floor_unique) auto
    then show ?thesis using a True by (auto simp: round_half_even_def Let_def)
  next
    case False
    then have "\<lfloor>x\<rfloor> = n - 1" using a by (intro floor_unique) auto
    then show ?thesis using a False by (auto simp: round_half_even_def Let_def)
  qed
qed


lemma floor_log_bounds:
  assumes "0 < x"
  shows "2 powr of_int \<lfloor>log 2 x\<rfloor> \<le> x" and "x < 2 powr of_int (\<lfloor>log 2 x\<rfloor> + 1)"
proof -
  have "2 powr of_int \<lfloor>log 2 x\<rfloor> \<le> 2 powr log 2 x"
    by (intro powr_mono) auto
  then show "2 powr of_int \<lfloor>log 2 x\<rfloor> \<le> x"
    using assms by simp
  have "log 2 x < of_int (\<lfloor>log 2 x\<rfloor> + 1)"
    by linarith
  then have "2 powr log 2 x < 2 powr of_int (\<lfloor>log 2 x\<rfloor> + 1)"
    by (intro powr_less_mono) auto
  then show "x < 2 powr of_int (\<lfloor>log 2 x\<rfloor> + 1)"
    using assms by simp
qed

lemma floor_log_unique:
  assumes "0 < x" and "2 powr of_int e \<le> x" and "x < 2 powr of_int (e + 1)"
  shows "\<lfloor>log 2 x\<rfloor> = e"
proof (rule floor_unique)
  show "of_int e \<le> log 2 x"
    using assms(1,2) by (simp add: le_log_iff)
  show "log 2 x < of_int e + 1"
    using assms(1,3) by (simp add: log_less_iff)
qed

lemma ulp_exponent_mono:
  assumes "0 < x" and "x \<le> y"
  shows "ulp_exponent x \<le> ulp_exponent y"
proof -
  have "log 2 x \<le> log 2 y"
    using assms by simp
  then have "\<lfloor>log 2 x\<rfloor> \<le> \<lfloor>log 2 y\<rfloor>"
    by (rule floor_mono)
  then show ?thesis
    using assms by (simp add: ulp_exponent_def)
qed

lemma powr_int_nonneg: "0 \<le> k \<Longrightarrow> (2::real) powr of_int k = of_int (2 ^ nat k)"
  by (simp add: powr_realpow [symmetric])

lemma fl_pos_mono:
  assumes "0 < x" and "x \<le> y"
  shows "fl_pos x \<le> fl_pos y"
proof (cases "ulp_exponent x = ulp_exponent y")
  case True
  have "x / 2 powr of_int (ulp_exponent y) \<le> y / 2 powr of_int (ulp_exponent y)"
    using assms(2) by (simp add: divide_right_mono)
  then have "round_half_even (x / 2 powr of_int (ulp_exponent y))
      \<le> round_half_even (y / 2 powr of_int (ulp_exponent y))"
    by (rule rhe_mono)
  then show ?thesis
    unfolding fl_pos_def True by (simp add: mult_right_mono)
next
  case False
  define u where "u = ulp_exponent x"
  define g where "g = ulp_exponent y"
  define E where "E = \<lfloor>log 2 y\<rfloor>"
  have ypos: "0 < y" using assms by simp
  have ug: "u < g"
    using False ulp_exponent_mono [OF assms] by (simp add: u_def g_def)
  have u_low: "- 1074 \<le> u" and u_log: "\<lfloor>log 2 x\<rfloor> - 52 \<le> u"
    using assms(1) by (simp_all add: u_def ulp_exponent_def)
  have gE: "g = E - 52"
    using ug u_low ypos by (simp add: g_def E_def ulp_exponent_def max_def split: if_splits)
  have "\<lfloor>log 2 x\<rfloor> + 1 \<le> E"
    using u_log ug gE by simp
  then have "(2::real) powr of_int (\<lfloor>log 2 x\<rfloor> + 1) \<le> 2 powr of_int E"
    by (intro powr_mono) auto
  then have xB: "x \<le> 2 powr of_int E"
    using floor_log_bounds(2) [OF assms(1)] by linarith
  have By: "2 powr of_int E \<le> y"
    using floor_log_bounds(1) [OF ypos] by (simp add: E_def)
  have Eu: "0 \<le> E - u" using ug gE by simp
  have "x / 2 powr of_int u \<le> 2 powr of_int E / 2 powr of_int u"
    using xB by (simp add: divide_right_mono)
  also have "\<dots> = 2 powr of_int (E - u)"
    by (simp add: powr_diff)
  also have "\<dots> = of_int (2 ^ nat (E - u))"
    using Eu by (rule powr_int_nonneg)
  finally have "round_half_even (x / 2 powr of_int u) \<le> 2 ^ nat (E - u)"
    using rhe_mono rhe_int by metis
  then have "of_int (round_half_even (x / 2 powr of_int u)) * (2::real) powr of_int u
      \<le> of_int (2 ^ nat (E - u)) * 2 powr of_int u"
    by (intro mult_right_mono) auto
  also have "\<dots> = 2 powr of_int (E - u) * 2 powr of_int u"
    using powr_int_nonneg [OF Eu] by simp
  also have "\<dots> = 2 powr of_int E"
    by (simp add: powr_add [symmetric])
  finally have left: "fl_pos x \<le> 2 powr of_int E"
    by (simp add: fl_pos_def u_def)
  have "2 powr of_int E / 2 powr of_int g \<le> y / 2 powr of_int g"
    using By by (simp add: divide_right_mono)
  moreover have "(2::real) powr of_int E / 2 powr of_int g = of_int (2 ^ 52)"
    using powr_int_nonneg [of 52] by (simp add: powr_diff [symmetric] gE)
  ultimately have "2 ^ 52 \<le> round_half_even (y / 2 powr of_int g)"
    using rhe_mono rhe_int by metis
  then have r1: "of_int (2 ^ 52) * (2::real) powr of_int g
      \<le> of_int (round_half_even (y / 2 powr of_int g)) * 2 powr of_int g"
    by (intro mult_right_mono) auto
  have r2: "of_int (2 ^ 52) * 2 powr of_int g = (2::real) powr of_int E"
  proof -
    have "(2::real) powr of_int 52 * 2 powr of_int g = 2 powr (of_int 52 + of_int g)"
      by (rule powr_add [symmetric])
    also have "\<dots> = 2 powr of_int E"
      by (simp add: gE)
    finally show ?thesis
      using powr_int_nonneg [of 52] by simp
  qed
  have right: "2 powr of_int E \<le> fl_pos y"
    unfolding fl_pos_def g_def [symmetric] using r1 r2 by linarith
  from left right show ?thesis by simp
qed


lemma fl_zero: "fl 0 = 0"
  by (simp add: fl_def)

lemma fl_sgn: "x \<noteq> 0 \<Longrightarrow> fl x = sgn x * fl_pos \<bar>x\<bar>"
  by (simp add: fl_def fl_pos_def ulp_exponent_def)

lemma fl_pos_nonneg: "0 \<le> x \<Longrightarrow> 0 \<le> fl_pos x"
proof -
  assume "0 \<le> x"
  then have "0 \<le> x / 2 powr of_int (ulp_exponent x)"
    by simp
  then have "round_half_even 0 \<le> round_half_even (x / 2 powr of_int (ulp_exponent x))"
    by (rule rhe_mono)
  then have "0 \<le> round_half_even (x / 2 powr of_int (ulp_exponent x))"
    using rhe_int [of 0] by simp
  then show ?thesis
    by (simp add: fl_pos_def)
qed

lemma fl_nonneg: "0 \<le> x \<Longrightarrow> 0 \<le> fl x"
  using fl_pos_nonneg [of "\<bar>x\<bar>"] by (cases "x = 0") (simp_all add: fl_zero fl_sgn)

lemma fl_nonpos: "x \<le> 0 \<Longrightarrow> fl x \<le> 0"
  using fl_pos_nonneg [of "\<bar>x\<bar>"]
  by (cases "x = 0") (simp_all add: fl_zero fl_sgn mult_le_0_iff)

lemma fl_mono:
  assumes "x \<le> y"
  shows "fl x \<le> fl y"
proof -
  consider "0 < x" | "x \<le> 0" "0 \<le> y" | "y < 0"
    using assms by linarith
  then show ?thesis
  proof cases
    case 1
    then have "fl_pos x \<le> fl_pos y"
      using assms by (intro fl_pos_mono)
    then show ?thesis
      using 1 assms by (simp add: fl_sgn)
  next
    case 2
    then show ?thesis
      using fl_nonpos [of x] fl_nonneg [of y] by linarith
  next
    case 3
    then have "fl_pos \<bar>y\<bar> \<le> fl_pos \<bar>x\<bar>"
      using assms by (intro fl_pos_mono) auto
    then show ?thesis
      using 3 assms by (simp add: fl_sgn)
  qed
qed

lemma fl_pos_eval:
  assumes "0 < x" and "2 powr of_int e \<le> x" and "x < 2 powr of_int (e + 1)"
    and "- 1022 \<le> e"
  shows "fl_pos x = of_int (round_half_even (x / 2 powr of_int (e - 52)))
      * 2 powr of_int (e - 52)"
proof -
  have "\<lfloor>log 2 \<bar>x\<bar>\<rfloor> = e"
    using assms(1,2,3) by (intro floor_log_unique) auto
  then have "ulp_exponent x = e - 52"
    using assms(4) by (simp add: ulp_exponent_def)
  then show ?thesis
    by (simp add: fl_pos_def)
qed

lemma fl_pos_exact:
  assumes "0 < m" and "m < 2 ^ 53" and "- 1074 \<le> g"
  shows "fl_pos (of_int m * 2 powr of_int g) = of_int m * 2 powr of_int g"
proof -
  define x :: real where "x = of_int m * 2 powr of_int g"
  define u where "u = ulp_exponent x"
  have xpos: "0 < x"
    using assms(1) by (simp add: x_def)
  have "x < of_int (2 ^ 53) * 2 powr of_int g"
    unfolding x_def using assms(2) by (intro mult_strict_right_mono) auto
  also have "\<dots> = 2 powr of_int 53 * 2 powr of_int g"
    using powr_int_nonneg [of 53] by simp
  also have "\<dots> = 2 powr of_int (g + 52 + 1)"
    by (simp add: powr_add)
  finally have "log 2 x < of_int (g + 52 + 1)"
    using xpos by (simp add: log_less_iff)
  then have "\<lfloor>log 2 x\<rfloor> \<le> g + 52"
    by linarith
  then have ug: "u \<le> g"
    using assms(3) xpos by (simp add: u_def ulp_exponent_def)
  then have gu: "0 \<le> g - u" by simp
  have "x / 2 powr of_int u = of_int m * (2 powr of_int g / 2 powr of_int u)"
    by (simp add: x_def)
  also have "2 powr of_int g / 2 powr of_int u = (2::real) powr of_int (g - u)"
    by (simp add: powr_diff)
  also have "\<dots> = of_int (2 ^ nat (g - u))"
    using gu by (rule powr_int_nonneg)
  finally have q: "x / 2 powr of_int u = of_int (m * 2 ^ nat (g - u))"
    by simp
  have "fl_pos x = of_int (m * 2 ^ nat (g - u)) * 2 powr of_int u"
    unfolding fl_pos_def u_def [symmetric] q rhe_int ..
  also have "\<dots> = of_int m * (of_int (2 ^ nat (g - u)) * 2 powr of_int u)"
    by simp
  also have "of_int (2 ^ nat (g - u)) * 2 powr of_int u = (2::real) powr of_int g"
  proof -
    have "(2::real) powr of_int (g - u) * 2 powr of_int u = 2 powr (of_int (g - u) + of_int u)"
      by (rule powr_add [symmetric])
    then show ?thesis
      using powr_int_nonneg [OF gu] by simp
  qed
  finally show ?thesis
    by (simp add: x_def)
qed

lemma fl_exact:
  assumes "\<bar>m\<bar> < 2 ^ 53" and "- 1074 \<le> g"
  shows "fl (of_int m * 2 powr of_int g) = of_int m * 2 powr of_int g"
proof (cases "m = 0")
  case True
  then show ?thesis by (simp add: fl_zero)
next
  case False
  then have "0 < \<bar>m\<bar>" by simp
  then have "fl_pos (of_int \<bar>m\<bar> * 2 powr of_int g) = of_int \<bar>m\<bar> * 2 powr of_int g"
    using assms by (intro fl_pos_exact) auto
  moreover have "\<bar>of_int m * 2 powr of_int g\<bar> = of_int \<bar>m\<bar> * (2::real) powr of_int g"
    by (simp add: abs_mult)
  moreover have "of_int m * (2::real) powr of_int g \<noteq> 0"
    using False by simp
  ultimately show ?thesis
    by (simp add: fl_sgn sgn_mult mult.assoc [symmetric] flip: abs_sgn)
     (metis abs_sgn mult.commute of_int_abs real_sgn_eq sgn_mult_abs mult.assoc)
qed

lemma fl_int: "\<bar>m\<bar> < 2 ^ 53 \<Longrightarrow> fl (of_int m) = of_int m"
  using fl_exact [of m 0] by simp

lemma loop_f64_mono:
  assumes "list_all (\<lambda>(name, c). fl (max_val c - min_val c) \<noteq> 0 \<and> 0 \<le> weight c) items"
    and "list_all (\<lambda>(name, c).
           fl (fl (dict_get s name 0 - min_val c) / fl (max_val c - min_val c))
           \<le> fl (fl (dict_get s' name 0 - min_val c) / fl (max_val c - min_val c))) items"
    and "acc \<le> acc'"
  shows "\<exists>a b. weighted_normalized_score_sum_f64 items s acc = Inr a
             \<and> weighted_normalized_score_sum_f64 items s' acc' = Inr b \<and> a \<le> b"
  using assms
proof (induction items arbitrary: acc acc')
  case Nil
  then show ?case by simp
next
  case (Cons item items)
  obtain name c where item: "item = (name, c)"
    by (cases item)
  let ?n = "fl (fl (dict_get s name 0 - min_val c) / fl (max_val c - min_val c))"
  let ?n' = "fl (fl (dict_get s' name 0 - min_val c) / fl (max_val c - min_val c))"
  have d: "fl (max_val c - min_val c) \<noteq> 0" and w: "0 \<le> weight c" and n: "?n \<le> ?n'"
    using Cons.prems(1,2) item by simp_all
  have "weight c * ?n \<le> weight c * ?n'"
    using w n by (rule mult_left_mono [rotated])
  then have "fl (weight c * ?n) \<le> fl (weight c * ?n')"
    by (rule fl_mono)
  then have "acc + fl (weight c * ?n) \<le> acc' + fl (weight c * ?n')"
    using Cons.prems(3) by simp
  then have step: "fl (acc + fl (weight c * ?n)) \<le> fl (acc' + fl (weight c * ?n'))"
    by (rule fl_mono)
  have rest1: "list_all (\<lambda>(name, c). fl (max_val c - min_val c) \<noteq> 0 \<and> 0 \<le> weight c) items"
    using Cons.prems(1) by simp
  have rest2: "list_all (\<lambda>(name, c).
           fl (fl (dict_get s name 0 - min_val c) / fl (max_val c - min_val c))
           \<le> fl (fl (dict_get s' name 0 - min_val c) / fl (max_val c - min_val c))) items"
    using Cons.prems(2) by simp
  show ?case
    using Cons.IH [OF rest1 rest2 step] d
    by (simp add: item normalize_score_f64_def)
qed


lemma fl_numerals:
  "fl 100 = 100" "fl 6 = 6" "fl 19 = 19" "fl 22 = 22" "fl 11 = 11" "fl 5 = 5"
  "fl (- 13) = - 13" "fl (- 16) = - 16" "fl (- 6) = - 6"
  using fl_int [of 100] fl_int [of 6] fl_int [of 19] fl_int [of 22] fl_int [of 11]
    fl_int [of 5] fl_int [of "- 13"] fl_int [of "- 16"] fl_int [of "- 6"]
  by simp_all

lemma dale_chall_divisor: "fl (fl 4.9 - 11) \<le> - 6"
proof -
  have "fl 4.9 \<le> fl 5"
    by (rule fl_mono) simp
  then have "fl 4.9 - 11 \<le> - 6"
    by (simp add: fl_numerals)
  then have "fl (fl 4.9 - 11) \<le> fl (- 6)"
    by (rule fl_mono)
  then show ?thesis
    by (simp add: fl_numerals)
qed

lemma table_f64:
  "readability_metrics_f64 =
     [(''flesch_reading_ease'', \<lparr>weight = fl 0.1653977378, min_val = 0, max_val = 100\<rparr>),
      (''gunning_fog'', \<lparr>weight = fl 0.2228367277, min_val = 19, max_val = 6\<rparr>),
      (''coleman_liau_index'', \<lparr>weight = fl 0.1831723411, min_val = 19, max_val = 6\<rparr>),
      (''automated_readability_index'', \<lparr>weight = fl 0.2325290236, min_val = 22, max_val = 6\<rparr>),
      (''dale_chall_readability_score'',
         \<lparr>weight = fl 0.1960641698, min_val = 11, max_val = fl 4.9\<rparr>)]"
  by (simp add: readability_metrics_f64_def readability_metrics_def fl_numerals fl_zero)

lemma table_f64_ok:
  "list_all (\<lambda>(name, c). fl (max_val c - min_val c) \<noteq> 0 \<and> 0 \<le> weight c)
     readability_metrics_f64"
  using dale_chall_divisor
  by (simp add: table_f64 fl_numerals fl_nonneg)

lemma normalized_increasing:
  assumes "0 < d" and "x \<le> y"
  shows "fl (fl (x - m) / d) \<le> fl (fl (y - m) / d)"
proof -
  have "fl (x - m) \<le> fl (y - m)"
    using assms(2) by (intro fl_mono) simp
  then have "fl (x - m) / d \<le> fl (y - m) / d"
    using assms(1) by (simp add: divide_right_mono)
  then show ?thesis
    by (rule fl_mono)
qed

lemma normalized_decreasing:
  assumes "d < 0" and "x \<le> y"
  shows "fl (fl (y - m) / d) \<le> fl (fl (x - m) / d)"
proof -
  have "fl (x - m) \<le> fl (y - m)"
    using assms(2) by (intro fl_mono) simp
  then have "fl (y - m) / d \<le> fl (x - m) / d"
    using assms(1) by (simp add: divide_right_mono_neg)
  then show ?thesis
    by (rule fl_mono)
qed

lemma composite_f64_le:
  assumes "list_all (\<lambda>(name, c).
           fl (fl (dict_get s name 0 - min_val c) / fl (max_val c - min_val c))
           \<le> fl (fl (dict_get s' name 0 - min_val c) / fl (max_val c - min_val c)))
         readability_metrics_f64"
  shows "\<exists>a b. composite_score_f64 s = Inr a \<and> composite_score_f64 s' = Inr b \<and> a \<le> b"
proof -
  obtain a b where ab: "weighted_normalized_score_sum_f64 readability_metrics_f64 s 0 = Inr a"
      "weighted_normalized_score_sum_f64 readability_metrics_f64 s' 0 = Inr b" "a \<le> b"
    using loop_f64_mono [OF table_f64_ok assms, of 0 0] by auto
  then have "fl (a * 100) \<le> fl (b * 100)"
    by (intro fl_mono) simp
  then show ?thesis
    using ab by (simp add: composite_score_f64_def)
qed

text \<open>
  Claim C6. With the other raw scores held fixed, the composite score is monotonic in each
  raw score, in the arithmetic of the program: a larger \<^verbatim>\<open>flesch_reading_ease\<close> never gives
  a smaller composite score, and a larger \<^verbatim>\<open>gunning_fog\<close>, \<^verbatim>\<open>coleman_liau_index\<close>,
  \<^verbatim>\<open>automated_readability_index\<close> or \<^verbatim>\<open>dale_chall_readability_score\<close> never gives a
  larger one. The monotonicity is not strict: see the two dictionaries below.
\<close>

theorem composite_score_f64_monotonic:
  assumes "x \<le> y"
  shows "(\<exists>a b. composite_score_f64 (scores(''flesch_reading_ease'' \<mapsto> x)) = Inr a
            \<and> composite_score_f64 (scores(''flesch_reading_ease'' \<mapsto> y)) = Inr b \<and> a \<le> b)
       \<and> (\<exists>a b. composite_score_f64 (scores(''gunning_fog'' \<mapsto> y)) = Inr a
            \<and> composite_score_f64 (scores(''gunning_fog'' \<mapsto> x)) = Inr b \<and> a \<le> b)
       \<and> (\<exists>a b. composite_score_f64 (scores(''coleman_liau_index'' \<mapsto> y)) = Inr a
            \<and> composite_score_f64 (scores(''coleman_liau_index'' \<mapsto> x)) = Inr b \<and> a \<le> b)
       \<and> (\<exists>a b. composite_score_f64 (scores(''automated_readability_index'' \<mapsto> y)) = Inr a
            \<and> composite_score_f64 (scores(''automated_readability_index'' \<mapsto> x)) = Inr b
            \<and> a \<le> b)
       \<and> (\<exists>a b. composite_score_f64 (scores(''dale_chall_readability_score'' \<mapsto> y)) = Inr a
            \<and> composite_score_f64 (scores(''dale_chall_readability_score'' \<mapsto> x)) = Inr b
            \<and> a \<le> b)"
proof (intro conjI)
  show "\<exists>a b. composite_score_f64 (scores(''flesch_reading_ease'' \<mapsto> x)) = Inr a
            \<and> composite_score_f64 (scores(''flesch_reading_ease'' \<mapsto> y)) = Inr b \<and> a \<le> b"
    using normalized_increasing [of 100 x y 0] assms
    by (intro composite_f64_le) (simp add: table_f64 dict_get_def fl_numerals)
  show "\<exists>a b. composite_score_f64 (scores(''gunning_fog'' \<mapsto> y)) = Inr a
            \<and> composite_score_f64 (scores(''gunning_fog'' \<mapsto> x)) = Inr b \<and> a \<le> b"
    using normalized_decreasing [of "- 13" x y 19] assms
    by (intro composite_f64_le) (simp add: table_f64 dict_get_def fl_numerals)
  show "\<exists>a b. composite_score_f64 (scores(''coleman_liau_index'' \<mapsto> y)) = Inr a
            \<and> composite_score_f64 (scores(''coleman_liau_index'' \<mapsto> x)) = Inr b \<and> a \<le> b"
    using normalized_decreasing [of "- 13" x y 19] assms
    by (intro composite_f64_le) (simp add: table_f64 dict_get_def fl_numerals)
  show "\<exists>a b. composite_score_f64 (scores(''automated_readability_index'' \<mapsto> y)) = Inr a
            \<and> composite_score_f64 (scores(''automated_readability_index'' \<mapsto> x)) = Inr b
            \<and> a \<le> b"
    using normalized_decreasing [of "- 16" x y 22] assms
    by (intro composite_f64_le) (simp add: table_f64 dict_get_def fl_numerals)
  show "\<exists>a b. composite_score_f64 (scores(''dale_chall_readability_score'' \<mapsto> y)) = Inr a
            \<and> composite_score_f64 (scores(''dale_chall_readability_score'' \<mapsto> x)) = Inr b
            \<and> a \<le> b"
    using normalized_decreasing [of "fl (fl 4.9 - 11)" x y 11] assms dale_chall_divisor
    by (intro composite_f64_le) (simp add: table_f64 dict_get_def fl_numerals)
qed


theorem composite_score_f64_monotonic_witness:
  "(1::real) \<le> 2
   \<and> (\<exists>a b. composite_score_f64 (Map.empty(''flesch_reading_ease'' \<mapsto> 1)) = Inr a
            \<and> composite_score_f64 (Map.empty(''flesch_reading_ease'' \<mapsto> 2)) = Inr b \<and> a \<le> b)
   \<and> (\<exists>a b. composite_score_f64 (Map.empty(''gunning_fog'' \<mapsto> 2)) = Inr a
            \<and> composite_score_f64 (Map.empty(''gunning_fog'' \<mapsto> 1)) = Inr b \<and> a \<le> b)"
  using composite_score_f64_monotonic [of 1 2 Map.empty]
  by simp

text \<open>
  Two dictionaries that differ in \<^verbatim>\<open>flesch_reading_ease\<close> only, 110 and the next double
  above it: both quotients by 100 round to the same double, and the composite scores are
  equal.
\<close>

lemma composite_f64_defined: "\<exists>a. composite_score_f64 s = Inr a"
proof -
  have "list_all (\<lambda>(name, c).
           fl (fl (dict_get s name 0 - min_val c) / fl (max_val c - min_val c))
           \<le> fl (fl (dict_get s name 0 - min_val c) / fl (max_val c - min_val c)))
         readability_metrics_f64"
    by (simp add: table_f64)
  then show ?thesis
    using composite_f64_le [of s s] by blast
qed

lemma fl_eval_pos:
  assumes "0 < x" and "2 powr of_int e \<le> x" and "x < 2 powr of_int (e + 1)"
    and "- 1022 \<le> e" and "\<bar>x / 2 powr of_int (e - 52) - of_int n\<bar> < 1 / 2"
  shows "fl x = of_int n * 2 powr of_int (e - 52)"
  using fl_pos_eval [OF assms(1,2,3,4)] rhe_near [OF assms(5)] assms(1)
  by (simp add: fl_sgn)

lemma fl_110: "fl (110 - 0) = 110"
  using fl_int [of 110] by simp

lemma fl_110_next: "fl (110 + 1 / 2 ^ 46 - 0) = 110 + 1 / 2 ^ 46"
proof -
  have p: "(2::real) powr of_int (- 46) = 1 / 2 ^ 46"
    by (simp add: powr_neg_numeral)
  have "fl (of_int (110 * 2 ^ 46 + 1) * 2 powr of_int (- 46)) =
      of_int (110 * 2 ^ 46 + 1) * 2 powr of_int (- 46)"
    by (rule fl_exact) simp_all
  moreover have "of_int (110 * 2 ^ 46 + 1) * (1 / 2 ^ 46) = (110::real) + 1 / 2 ^ 46"
    by simp
  ultimately show ?thesis
    unfolding p by simp
qed

lemma quotient_110: "fl (110 / 100) = 4953959590107546 / 2 ^ 52"
  using fl_eval_pos [of "110 / 100" 0 4953959590107546]
  by (simp add: powr_neg_numeral)

lemma quotient_110_next: "fl ((110 + 1 / 2 ^ 46) / 100) = 4953959590107546 / 2 ^ 52"
  using fl_eval_pos [of "(110 + 1 / 2 ^ 46) / 100" 0 4953959590107546]
  by (simp add: powr_neg_numeral)

lemma fl_100: "fl (100 - 0) = 100"
  using fl_int [of 100] by simp

lemma normalized_110:
  "normalize_score_f64 110 0 100 = normalize_score_f64 (110 + 1 / 2 ^ 46) 0 100"
proof -
  have l: "normalize_score_f64 110 0 100 = Inr (fl (110 / 100))"
    unfolding normalize_score_f64_def fl_110 fl_100 by simp
  have r: "normalize_score_f64 (110 + 1 / 2 ^ 46) 0 100 = Inr (fl ((110 + 1 / 2 ^ 46) / 100))"
    unfolding normalize_score_f64_def fl_110_next fl_100 by simp
  show ?thesis
    unfolding l r quotient_110 quotient_110_next ..
qed

lemma composite_f64_same_normalized:
  assumes "normalize_score_f64 x 0 100 = normalize_score_f64 y 0 100"
  shows "composite_score_f64 (s(''flesch_reading_ease'' \<mapsto> x)) =
         composite_score_f64 (s(''flesch_reading_ease'' \<mapsto> y))"
  by (simp add: composite_score_f64_def table_f64 dict_get_def assms cong: sum.case_cong)

theorem composite_score_f64_not_strict:
  "(110::real) < 110 + 1 / 2 ^ 46
   \<and> \<not> isl (composite_score_f64 [''gunning_fog'' \<mapsto> 8, ''coleman_liau_index'' \<mapsto> 9,
          ''automated_readability_index'' \<mapsto> 7, ''dale_chall_readability_score'' \<mapsto> 6,
          ''flesch_reading_ease'' \<mapsto> 110])
   \<and> composite_score_f64 [''gunning_fog'' \<mapsto> 8, ''coleman_liau_index'' \<mapsto> 9,
          ''automated_readability_index'' \<mapsto> 7, ''dale_chall_readability_score'' \<mapsto> 6,
          ''flesch_reading_ease'' \<mapsto> 110]
     = composite_score_f64 [''gunning_fog'' \<mapsto> 8, ''coleman_liau_index'' \<mapsto> 9,
          ''automated_readability_index'' \<mapsto> 7, ''dale_chall_readability_score'' \<mapsto> 6,
          ''flesch_reading_ease'' \<mapsto> 110 + 1 / 2 ^ 46]"
proof -
  let ?rest = "[''gunning_fog'' \<mapsto> 8, ''coleman_liau_index'' \<mapsto> 9,
          ''automated_readability_index'' \<mapsto> 7, ''dale_chall_readability_score'' \<mapsto> (6::real)]"
  have "\<not> isl (composite_score_f64 (?rest(''flesch_reading_ease'' \<mapsto> 110)))"
    using composite_f64_defined [of "?rest(''flesch_reading_ease'' \<mapsto> 110)"]
    by auto
  moreover have "composite_score_f64 (?rest(''flesch_reading_ease'' \<mapsto> 110))
     = composite_score_f64 (?rest(''flesch_reading_ease'' \<mapsto> 110 + 1 / 2 ^ 46))"
    using normalized_110 by (rule composite_f64_same_normalized)
  moreover have "(110::real) < 110 + 1 / 2 ^ 46"
    by simp
  ultimately show ?thesis by blast
qed

section \<open>Properties of \<^verbatim>\<open>markdown_to_text\<close>\<close>

text \<open>
  Claim C5. For the input \<^verbatim>\<open>[label](http://example.com)\<close>, which the renderer turns into a
  paragraph holding one link and the parser into the tree of that paragraph,
  \<^verbatim>\<open>markdown_to_text\<close> returns exactly \<^verbatim>\<open>label\<close>.
\<close>

theorem link_label_kept:
  assumes "markdown lib (str ''[label](http://example.com)'') =
             str ''<p><a href=\"http://example.com\">label</a></p>''"
    and "BeautifulSoup lib (str ''<p><a href=\"http://example.com\">label</a></p>'') =
           [Tag ''p'' []
              [Tag ''a'' [(''href'', str ''http://example.com'')] [Text (str ''label'')]]]"
  shows "markdown_to_text lib (str ''[label](http://example.com)'') = str ''label''"
proof -
  have "sub_fenced_code True (str ''[label](http://example.com)'') =
          str ''[label](http://example.com)''"
    by (simp add: eval_fence)
  moreover have "soup_to_text
      [Tag ''p'' []
         [Tag ''a'' [(''href'', str ''http://example.com'')] [Text (str ''label'')]]] =
      str ''label''"
    by (simp add: eval_soup)
  ultimately show ?thesis
    using assms by (simp add: markdown_to_text_def)
qed

theorem link_label_kept_witness:
  "markdown_to_text
     (rendering (str ''<p><a href=\"http://example.com\">label</a></p>'')
        [Tag ''p'' []
           [Tag ''a'' [(''href'', str ''http://example.com'')] [Text (str ''label'')]]])
     (str ''[label](http://example.com)'') = str ''label''"
  using link_label_kept [of
      "rendering (str ''<p><a href=\"http://example.com\">label</a></p>'')
        [Tag ''p'' []
           [Tag ''a'' [(''href'', str ''http://example.com'')] [Text (str ''label'')]]]"]
  by (simp add: rendering_def)

lemma decompose_all_append: "decompose_all (xs @ ys) = decompose_all xs @ decompose_all ys"
  by (induction xs) auto

lemma decompose_all_plug:
  "name \<in> set unwanted \<Longrightarrow>
   decompose_all (plug c [Tag name attrs children]) = decompose_all (plug c [])"
  by (induction c) (auto simp: decompose_all_append)

text \<open>
  Claim C9. A tag with one of the removed names is removed with everything below it before
  the links are replaced by their text: when the parsed document holds such a tag at any
  place, with a link at any place below it, the result is the text of the document without
  that tag, whatever the link's label is.
\<close>

theorem link_in_removed_element:
  assumes "name \<in> set unwanted"
    and "BeautifulSoup lib (markdown lib (sub_fenced_code True s)) =
           plug c [Tag name attrs (plug inside [Tag ''a'' link_attrs label])]"
  shows "markdown_to_text lib s = soup_to_text (plug c [])"
  using assms
  by (simp add: markdown_to_text_def soup_to_text_def decompose_all_plug)

theorem link_in_removed_element_witness:
  "''li'' \<in> set unwanted
   \<and> markdown_to_text
       (rendering (str ''<p>See</p>\<newline><ul>\<newline><li><a href=\"u\">label</a></li>\<newline></ul>'')
          [Tag ''p'' [] [Text (str ''See'')], Text (str ''\<newline>''),
           Tag ''ul'' [] [Text (str ''\<newline>''),
             Tag ''li'' [] [Tag ''a'' [(''href'', str ''u'')] [Text (str ''label'')]],
             Text (str ''\<newline>'')]])
       (str ''See\<newline>\<newline>- [label](u)'') = str ''See''"
  using link_in_removed_element [of "''li''"
      "rendering (str ''<p>See</p>\<newline><ul>\<newline><li><a href=\"u\">label</a></li>\<newline></ul>'')
          [Tag ''p'' [] [Text (str ''See'')], Text (str ''\<newline>''),
           Tag ''ul'' [] [Text (str ''\<newline>''),
             Tag ''li'' [] [Tag ''a'' [(''href'', str ''u'')] [Text (str ''label'')]],
             Text (str ''\<newline>'')]]"
      "str ''See\<newline>\<newline>- [label](u)''"
      "Below [Tag ''p'' [] [Text (str ''See'')], Text (str ''\<newline>'')] ''ul'' []
         (Here [Text (str ''\<newline>'')] [Text (str ''\<newline>'')]) []"
      "[]" "Here [] []" "[(''href'', str ''u'')]" "[Text (str ''label'')]"]
  by (simp add: rendering_def eval_soup)

lemma sub_wrapped_newlines_hd:
  "sub_wrapped_newlines s = [] \<longleftrightarrow> s = []"
  "s \<noteq> [] \<Longrightarrow> hd (sub_wrapped_newlines s) = hd s"
  by (induction s rule: sub_wrapped_newlines.induct) auto

lemma sub_wrapped_newlines_no_pair:
  "Suc i < length (sub_wrapped_newlines s) \<Longrightarrow>
   ascii_alpha (sub_wrapped_newlines s ! i) \<Longrightarrow> sub_wrapped_newlines s ! Suc i \<noteq> 10"
proof (induction s arbitrary: i rule: sub_wrapped_newlines.induct)
  case (1 a b cs)
  show ?case
  proof (cases "ascii_alpha a \<and> b = 10")
    case True
    then have eq: "sub_wrapped_newlines (a # b # cs) = a # 32 # sub_wrapped_newlines cs"
      by simp
    show ?thesis
    proof (cases i)
      case 0
      then show ?thesis using eq by simp
    next
      case (Suc j)
      note j = this
      show ?thesis
      proof (cases j)
        case 0
        then show ?thesis using eq j "1.prems" by (simp add: ascii_alpha_def)
      next
        case (Suc k)
        then show ?thesis using eq j "1.prems" "1.IH"(1) [OF True, of k] by simp
      qed
    qed
  next
    case False
    then have eq: "sub_wrapped_newlines (a # b # cs) = a # sub_wrapped_newlines (b # cs)"
      by auto
    show ?thesis
    proof (cases i)
      case 0
      have "hd (sub_wrapped_newlines (b # cs)) = b"
        using sub_wrapped_newlines_hd(2) [of "b # cs"] by simp
      moreover have "sub_wrapped_newlines (b # cs) \<noteq> []"
        using sub_wrapped_newlines_hd(1) [of "b # cs"] by simp
      ultimately have "sub_wrapped_newlines (b # cs) ! 0 = b"
        by (simp add: hd_conv_nth)
      then show ?thesis using eq 0 False "1.prems" by auto
    next
      case (Suc j)
      then show ?thesis using eq "1.prems" "1.IH"(2) [OF False, of j] by simp
    qed
  qed
qed simp_all

lemma sub_wrapped_newlines_length: "length (sub_wrapped_newlines t) = length t"
  by (induction t rule: sub_wrapped_newlines.induct) auto

lemma sub_wrapped_newlines_nth:
  "i < length t \<Longrightarrow>
   sub_wrapped_newlines t ! i =
     (if t ! i = 10 \<and> 0 < i \<and> ascii_alpha (t ! (i - 1)) then 32 else t ! i)"
proof (induction t arbitrary: i rule: sub_wrapped_newlines.induct)
  case (1 a b cs)
  have not_alpha: "\<not> ascii_alpha 10"
    by (simp add: ascii_alpha_def)
  show ?case
  proof (cases "ascii_alpha a \<and> b = 10")
    case True
    then have eq: "sub_wrapped_newlines (a # b # cs) = a # 32 # sub_wrapped_newlines cs"
      by simp
    consider "i = 0" | "i = 1" | "i = 2" | j where "i = Suc (Suc (Suc j))"
      by (metis One_nat_def Suc_1 not0_implies_Suc)
    then show ?thesis
    proof cases
      case 1
      then show ?thesis using eq by simp
    next
      case 2
      then show ?thesis using eq True by simp
    next
      case 3
      then have "0 < length cs" using "1.prems" by simp
      then have "sub_wrapped_newlines cs ! 0 = cs ! 0"
        using "1.IH"(1) [OF True, of 0] by simp
      then show ?thesis using eq 3 True not_alpha by simp
    next
      case 4
      then have "Suc j < length cs" using "1.prems" by simp
      then have "sub_wrapped_newlines cs ! Suc j =
          (if cs ! Suc j = 10 \<and> ascii_alpha (cs ! j) then 32 else cs ! Suc j)"
        using "1.IH"(1) [OF True, of "Suc j"] by simp
      then show ?thesis using eq 4 by simp
    qed
  next
    case False
    then have eq: "sub_wrapped_newlines (a # b # cs) = a # sub_wrapped_newlines (b # cs)"
      by auto
    consider "i = 0" | "i = 1" | j where "i = Suc (Suc j)"
      by (metis One_nat_def not0_implies_Suc)
    then show ?thesis
    proof cases
      case 1
      then show ?thesis using eq by simp
    next
      case 2
      have "sub_wrapped_newlines (b # cs) ! 0 = b"
        using "1.IH"(2) [OF False, of 0] by simp
      then show ?thesis using eq 2 False by auto
    next
      case 3
      then have "Suc j < length (b # cs)" using "1.prems" by simp
      then have "sub_wrapped_newlines (b # cs) ! Suc j =
          (if (b # cs) ! Suc j = 10 \<and> ascii_alpha ((b # cs) ! j) then 32 else (b # cs) ! Suc j)"
        using "1.IH"(2) [OF False, of "Suc j"] by simp
      then show ?thesis using eq 3 by simp
    qed
  qed
qed simp_all

lemma sub_wrapped_newlines_kept:
  "\<not> ascii_alpha c \<Longrightarrow>
   sub_wrapped_newlines (c # 10 # cs) = c # 10 # sub_wrapped_newlines cs"
  by (cases cs) (simp_all add: ascii_alpha_def)

lemma markdown_to_text_collapsed:
  "markdown_to_text lib s = sub_wrapped_newlines (collapsed_text lib s)"
  by (simp add: markdown_to_text_def soup_to_text_def collapsed_text_def)


text \<open>
  Claim C10. In the string \<^verbatim>\<open>markdown_to_text\<close> returns, no newline stands directly behind
  an ASCII letter, for every input and every library. The string is the text behind line 71
  with exactly the newlines directly behind an ASCII letter turned into spaces: it has the
  same length, and every other character, a newline behind a letter outside ASCII, a digit
  or a punctuation mark among them, is the character of that text. In particular a
  character that is no ASCII letter keeps the newline behind it.
\<close>

theorem no_newline_after_ascii_letter:
  "\<not> (\<exists>i. Suc i < length (markdown_to_text lib s)
          \<and> ascii_alpha (markdown_to_text lib s ! i) \<and> markdown_to_text lib s ! Suc i = 10)
   \<and> markdown_to_text lib s = sub_wrapped_newlines (collapsed_text lib s)
   \<and> length (markdown_to_text lib s) = length (collapsed_text lib s)
   \<and> (\<forall>i < length (collapsed_text lib s).
         markdown_to_text lib s ! i =
           (if collapsed_text lib s ! i = 10 \<and> 0 < i
               \<and> ascii_alpha (collapsed_text lib s ! (i - 1))
            then 32 else collapsed_text lib s ! i))
   \<and> (\<not> ascii_alpha c \<longrightarrow>
         sub_wrapped_newlines (c # 10 # cs) = c # 10 # sub_wrapped_newlines cs)
   \<and> soup_to_text [Tag ''p'' [] [Text ([233, 10] @ str ''fin'')]] = [233, 10] @ str ''fin''
   \<and> soup_to_text [Tag ''p'' [] [Text (str ''1\<newline>2'')]] = str ''1\<newline>2''
   \<and> soup_to_text [Tag ''p'' [] [Text (str ''end.\<newline>Next'')]] = str ''end.\<newline>Next''"
proof -
  have "\<not> (\<exists>i. Suc i < length (markdown_to_text lib s)
          \<and> ascii_alpha (markdown_to_text lib s ! i) \<and> markdown_to_text lib s ! Suc i = 10)"
    unfolding markdown_to_text_def soup_to_text_def Let_def
    using sub_wrapped_newlines_no_pair by blast
  moreover have "markdown_to_text lib s = sub_wrapped_newlines (collapsed_text lib s)"
    by (rule markdown_to_text_collapsed)
  moreover have "length (markdown_to_text lib s) = length (collapsed_text lib s)"
    by (simp add: markdown_to_text_collapsed sub_wrapped_newlines_length)
  moreover have "\<forall>i < length (collapsed_text lib s).
         markdown_to_text lib s ! i =
           (if collapsed_text lib s ! i = 10 \<and> 0 < i
               \<and> ascii_alpha (collapsed_text lib s ! (i - 1))
            then 32 else collapsed_text lib s ! i)"
    using sub_wrapped_newlines_nth [of _ "collapsed_text lib s"]
    by (simp add: markdown_to_text_collapsed)
  moreover have "\<not> ascii_alpha c \<longrightarrow>
         sub_wrapped_newlines (c # 10 # cs) = c # 10 # sub_wrapped_newlines cs"
    using sub_wrapped_newlines_kept by blast
  moreover have
    "soup_to_text [Tag ''p'' [] [Text ([233, 10] @ str ''fin'')]] = [233, 10] @ str ''fin''"
    by (simp add: eval_soup)
  moreover have "soup_to_text [Tag ''p'' [] [Text (str ''1\<newline>2'')]] = str ''1\<newline>2''"
    by (simp add: eval_soup)
  moreover have
    "soup_to_text [Tag ''p'' [] [Text (str ''end.\<newline>Next'')]] = str ''end.\<newline>Next''"
    by (simp add: eval_soup)
  ultimately show ?thesis by blast
qed

theorem no_newline_after_ascii_letter_witness:
  "collapsed_text (rendering (str ''<p>1\<newline>2</p>'') [Tag ''p'' [] [Text (str ''1\<newline>2'')]])
     (str ''1\<newline>2'') = str ''1\<newline>2''
   \<and> \<not> ascii_alpha 49
   \<and> markdown_to_text (rendering (str ''<p>1\<newline>2</p>'') [Tag ''p'' [] [Text (str ''1\<newline>2'')]])
       (str ''1\<newline>2'') ! 1 = 10
   \<and> sub_wrapped_newlines (49 # 10 # str ''2'') = 49 # 10 # sub_wrapped_newlines (str ''2'')"
proof -
  let ?lib = "rendering (str ''<p>1\<newline>2</p>'') [Tag ''p'' [] [Text (str ''1\<newline>2'')]]"
  note general = no_newline_after_ascii_letter [of ?lib "str ''1\<newline>2''" 49 "str ''2''"]
  have collapsed: "collapsed_text ?lib (str ''1\<newline>2'') = str ''1\<newline>2''"
    by (simp add: collapsed_text_def rendering_def stripped_strings_def strip_def str_def
        isspace_def unwanted_def)
  have digit: "\<not> ascii_alpha 49"
    by (simp add: ascii_alpha_def)
  from general have "\<forall>i < length (collapsed_text ?lib (str ''1\<newline>2'')).
      markdown_to_text ?lib (str ''1\<newline>2'') ! i =
        (if collapsed_text ?lib (str ''1\<newline>2'') ! i = 10 \<and> 0 < i
            \<and> ascii_alpha (collapsed_text ?lib (str ''1\<newline>2'') ! (i - 1))
         then 32 else collapsed_text ?lib (str ''1\<newline>2'') ! i)"
    by blast
  then have "markdown_to_text ?lib (str ''1\<newline>2'') ! 1 = 10"
    unfolding collapsed using digit by (simp add: str_def)
  moreover from general digit
  have "sub_wrapped_newlines (49 # 10 # str ''2'') = 49 # 10 # sub_wrapped_newlines (str ''2'')"
    by blast
  ultimately show ?thesis using collapsed digit by blast
qed

section \<open>Fenced code blocks that the substitution removes\<close>

text \<open>
  A fenced block with at least one line between its fences, in a text that has no backtick
  before the block, inside it or behind it: the substitution of lines 51--56 replaces the
  block, with the newline before it, by one newline. \<open>ind\<close> and \<open>ind'\<close> are the
  indentations of the two fences and \<open>tag\<close> is the language tag. The first statement is a
  block behind prose, the second a block at the start of the text.
\<close>

lemma isspace_newline: "isspace 10"
  by (simp add: isspace_def)

lemma not_isspace_backtick: "\<not> isspace 96"
  by (simp add: isspace_def)

lemma dropWhile_isspace_all: "list_all isspace ind \<Longrightarrow> dropWhile isspace (ind @ 96 # r) = 96 # r"
  by (induction ind) (auto simp: not_isspace_backtick)

lemma take3_backticks:
  assumes "take 3 t = backticks"
  shows "t \<noteq> [] \<and> hd t = 96"
  using assms by (cases t) (auto simp: backticks_def)

lemma fence_open_line:
  assumes "list_all isspace ind" and "10 \<notin> set tag"
  shows "fence_open (ind @ backticks @ tag @ 10 # rest) = Some rest"
proof -
  have "dropWhile isspace (ind @ backticks @ tag @ 10 # rest) = backticks @ tag @ 10 # rest"
    using dropWhile_isspace_all [OF assms(1)] by (simp add: backticks_def)
  moreover have "dropWhile (\<lambda>c. c \<noteq> 10) (tag @ 10 # rest) = 10 # rest"
    using assms(2) by (induction tag) auto
  ultimately show ?thesis
    by (simp add: fence_open_def backticks_def)
qed

lemma dropWhile_isspace_backtick:
  assumes "96 \<notin> set xs" and "take 3 (dropWhile isspace (xs @ 10 # ind @ backticks @ post)) = backticks"
    and "list_all isspace ind"
  shows "dropWhile isspace (xs @ 10 # ind @ backticks @ post) = backticks @ post"
  using assms
proof (induction xs)
  case Nil
  have "dropWhile isspace (10 # ind @ backticks @ post) =
          dropWhile isspace (ind @ backticks @ post)"
    using isspace_newline by simp
  also have "\<dots> = backticks @ post"
    unfolding backticks_def using dropWhile_isspace_all [OF Nil.prems(3)] by simp
  finally show ?case by simp
next
  case (Cons x xs)
  show ?case
  proof (cases "isspace x")
    case True
    then have step: "dropWhile isspace ((x # xs) @ 10 # ind @ backticks @ post) =
        dropWhile isspace (xs @ 10 # ind @ backticks @ post)"
      by simp
    have "96 \<notin> set xs"
      using Cons.prems(1) by simp
    moreover have "take 3 (dropWhile isspace (xs @ 10 # ind @ backticks @ post)) = backticks"
      using Cons.prems(2) step by simp
    ultimately have "dropWhile isspace (xs @ 10 # ind @ backticks @ post) = backticks @ post"
      using Cons.prems(3) by (rule Cons.IH)
    then show ?thesis using step by simp
  next
    case False
    then have "hd (dropWhile isspace ((x # xs) @ 10 # ind @ backticks @ post)) = x"
      by simp
    moreover have "x \<noteq> 96" using Cons.prems(1) by auto
    ultimately show ?thesis
      using take3_backticks [OF Cons.prems(2)] by simp
  qed
qed

lemma fence_close_body:
  assumes "96 \<notin> set body" and "list_all isspace ind"
  shows "fence_close (body @ 10 # ind @ backticks @ post) = Some post"
  using assms(1)
proof (induction body)
  case Nil
  have "dropWhile isspace (ind @ backticks @ post) = backticks @ post"
    using dropWhile_isspace_all [OF assms(2)] by (simp add: backticks_def)
  then show ?case by (simp add: backticks_def)
next
  case (Cons c body)
  show ?case
  proof (cases "c = 10 \<and> take 3 (dropWhile isspace (body @ 10 # ind @ backticks @ post)) = backticks")
    case True
    then have "dropWhile isspace (body @ 10 # ind @ backticks @ post) = backticks @ post"
      using dropWhile_isspace_backtick [of body ind post] Cons.prems assms(2) by simp
    then show ?thesis using True by (simp add: backticks_def)
  next
    case False
    then show ?thesis using Cons by auto
  qed
qed

lemma fence_rest_block:
  assumes "list_all isspace ind" and "10 \<notin> set tag" and "96 \<notin> set body"
    and "list_all isspace ind'"
  shows "fence_rest (ind @ backticks @ tag @ 10 # body @ 10 # ind' @ backticks @ post) = Some post"
  using fence_open_line [OF assms(1,2)] fence_close_body [OF assms(3,4)]
  by (simp add: fence_rest_def)

lemma fence_open_prose:
  assumes "96 \<notin> set p" and "p \<noteq> []" and "\<not> isspace (last p)"
  shows "fence_open (p @ r) = None"
proof -
  have in_p: "last p \<in> set p"
    using assms(2) by simp
  have split: "dropWhile isspace (p @ r) = dropWhile isspace p @ r"
    using in_p assms(3) by (rule dropWhile_append1)
  have nonempty: "dropWhile isspace p \<noteq> []"
    using in_p assms(3) by (auto simp: dropWhile_eq_Nil_conv)
  then have "hd (dropWhile isspace p) \<in> set p"
    by (meson hd_in_set set_dropWhileD)
  then have "hd (dropWhile isspace (p @ r)) \<noteq> 96"
    using assms(1) nonempty split by auto
  then have "take 3 (dropWhile isspace (p @ r)) \<noteq> backticks"
    using take3_backticks by blast
  then show ?thesis by (simp add: fence_open_def)
qed

lemma sub_fenced_code_prose:
  assumes "96 \<notin> set p" and "p \<noteq> []" and "\<not> isspace (last p)"
  shows "sub_fenced_code b (p @ r) = p @ sub_fenced_code False r"
  using assms
proof (induction p arbitrary: b)
  case Nil
  then show ?case by simp
next
  case (Cons c p)
  have open1: "fence_open (c # p @ r) = None"
    using fence_open_prose [of "c # p" r] Cons.prems by simp
  show ?case
  proof (cases "p = []")
    case True
    then have "c \<noteq> 10" using Cons.prems by (auto simp: isspace_def)
    then have "fence_match b (c # p @ r) = None"
      using open1 by (simp add: fence_match_def fence_rest_def)
    then show ?thesis using True \<open>c \<noteq> 10\<close> by simp
  next
    case False
    then have "fence_open (p @ r) = None"
      using fence_open_prose [of p r] Cons.prems by simp
    then have "fence_match b (c # p @ r) = None"
      using open1 by (simp add: fence_match_def fence_rest_def)
    moreover have "sub_fenced_code (c = 10) (p @ r) = p @ sub_fenced_code False r"
      using Cons.IH [of "c = 10"] Cons.prems False by simp
    ultimately show ?thesis by simp
  qed
qed

lemma sub_fenced_code_plain: "96 \<notin> set s \<Longrightarrow> sub_fenced_code b s = s"
proof (induction s arbitrary: b)
  case Nil
  then show ?case by simp
next
  case (Cons c s)
  have no: "\<And>t. 96 \<notin> set t \<Longrightarrow> fence_open t = None"
  proof -
    fix t :: pystr
    assume "96 \<notin> set t"
    then have "96 \<notin> set (dropWhile isspace t)"
      using set_dropWhileD [of 96 isspace t] by blast
    have "take 3 (dropWhile isspace t) \<noteq> backticks"
    proof
      assume "take 3 (dropWhile isspace t) = backticks"
      then have "dropWhile isspace t \<noteq> [] \<and> hd (dropWhile isspace t) = 96"
        by (rule take3_backticks)
      then have "96 \<in> set (dropWhile isspace t)"
        using hd_in_set [of "dropWhile isspace t"] by simp
      then show False
        using \<open>96 \<notin> set (dropWhile isspace t)\<close> by simp
    qed
    then show "fence_open t = None" by (simp add: fence_open_def)
  qed
  have "fence_match b (c # s) = None"
    using no [of "c # s"] no [of s] Cons.prems by (simp add: fence_match_def fence_rest_def)
  then show ?case using Cons by simp
qed

theorem fenced_block_removed:
  assumes "96 \<notin> set pre" and "pre \<noteq> []" and "\<not> isspace (last pre)"
    and "list_all isspace ind" and "10 \<notin> set tag" and "96 \<notin> set body"
    and "list_all isspace ind'" and "96 \<notin> set post"
  shows "sub_fenced_code True
           (pre @ 10 # ind @ backticks @ tag @ 10 # body @ 10 # ind' @ backticks @ post) =
         pre @ 10 # post"
proof -
  let ?block = "ind @ backticks @ tag @ 10 # body @ 10 # ind' @ backticks @ post"
  have "fence_match False (10 # ?block) = Some post"
    using fence_rest_block [OF assms(4,5,6,7)] by (simp add: fence_match_def)
  then have "sub_fenced_code False (10 # ?block) = 10 # post"
    using sub_fenced_code_plain [OF assms(8)] by simp
  then show ?thesis
    using sub_fenced_code_prose [OF assms(1,2,3), of True "10 # ?block"] by simp
qed

theorem fenced_block_removed_at_start:
  assumes "list_all isspace ind" and "10 \<notin> set tag" and "96 \<notin> set body"
    and "list_all isspace ind'" and "96 \<notin> set post"
  shows "sub_fenced_code True
           (ind @ backticks @ tag @ 10 # body @ 10 # ind' @ backticks @ post) = 10 # post"
proof -
  let ?block = "ind @ backticks @ tag @ 10 # body @ 10 # ind' @ backticks @ post"
  have "fence_match True ?block = Some post"
    using fence_rest_block [OF assms(1,2,3,4)] by (simp add: fence_match_def)
  moreover obtain c cs where "?block = c # cs"
    by (cases ?block) (auto simp: backticks_def)
  ultimately show ?thesis
    using sub_fenced_code_plain [OF assms(5)] by simp
qed

section \<open>Inputs on which \<^verbatim>\<open>markdown_to_text\<close> keeps what it is meant to drop\<close>

text \<open>
  Claim C2. The input is an empty fenced code block, a blank line, and a fenced code block
  holding the line \<^verbatim>\<open>code\<close>. The pattern of lines 51--56 needs a line between two fences,
  so its match runs from the first fence to the opening fence of the second block: the
  substitution leaves \<^verbatim>\<open>code\<close> and the closing fence, which the renderer turns into a
  paragraph, and \<^verbatim>\<open>markdown_to_text\<close> returns the text of the second block.
\<close>

theorem fenced_block_text_kept:
  assumes "markdown lib (str ''\<newline>\<newline>code\<newline>```'') = str ''<p>code\<newline>```</p>''"
    and "BeautifulSoup lib (str ''<p>code\<newline>```</p>'') =
           [Tag ''p'' [] [Text (str ''code\<newline>```'')]]"
  shows "sub_fenced_code True (str ''```\<newline>```\<newline>\<newline>```\<newline>code\<newline>```'') =
           str ''\<newline>\<newline>code\<newline>```''
       \<and> markdown_to_text lib (str ''```\<newline>```\<newline>\<newline>```\<newline>code\<newline>```'') =
           str ''code ```''"
proof -
  have "sub_fenced_code True (str ''```\<newline>```\<newline>\<newline>```\<newline>code\<newline>```'') =
          str ''\<newline>\<newline>code\<newline>```''"
    by (simp add: eval_fence)
  moreover have "soup_to_text [Tag ''p'' [] [Text (str ''code\<newline>```'')]] = str ''code ```''"
    by (simp add: eval_soup)
  ultimately show ?thesis
    using assms by (simp add: markdown_to_text_def)
qed

theorem fenced_block_text_kept_witness:
  "markdown_to_text
     (rendering (str ''<p>code\<newline>```</p>'') [Tag ''p'' [] [Text (str ''code\<newline>```'')]])
     (str ''```\<newline>```\<newline>\<newline>```\<newline>code\<newline>```'') = str ''code ```''"
  using fenced_block_text_kept [of
      "rendering (str ''<p>code\<newline>```</p>'') [Tag ''p'' [] [Text (str ''code\<newline>```'')]]"]
  by (simp add: rendering_def)

text \<open>
  Claim C3. For the input \<^verbatim>\<open># Heading\<close>, a blank line, \<^verbatim>\<open>Some **bold** text.\<close>, which the
  renderer turns into a heading and a paragraph whose strings are \<^verbatim>\<open>Some \<close>, \<^verbatim>\<open>bold\<close> and
  \<^verbatim>\<open> text.\<close>, the heading is dropped, and the three strings are stripped and joined with
  nothing between them: the result is \<^verbatim>\<open>Someboldtext.\<close>.
\<close>

theorem bold_text_glued:
  assumes "markdown lib (str ''# Heading\<newline>\<newline>Some **bold** text.'') =
             str ''<h1>Heading</h1>\<newline><p>Some <strong>bold</strong> text.</p>''"
    and "BeautifulSoup lib
           (str ''<h1>Heading</h1>\<newline><p>Some <strong>bold</strong> text.</p>'') =
           [Tag ''h1'' [] [Text (str ''Heading'')],
            Text (str ''\<newline>''),
            Tag ''p'' [] [Text (str ''Some ''), Tag ''strong'' [] [Text (str ''bold'')],
                          Text (str '' text.'')]]"
  shows "markdown_to_text lib (str ''# Heading\<newline>\<newline>Some **bold** text.'') =
           str ''Someboldtext.''"
proof -
  have "sub_fenced_code True (str ''# Heading\<newline>\<newline>Some **bold** text.'') =
          str ''# Heading\<newline>\<newline>Some **bold** text.''"
    by (simp add: eval_fence)
  moreover have "soup_to_text
      [Tag ''h1'' [] [Text (str ''Heading'')],
       Text (str ''\<newline>''),
       Tag ''p'' [] [Text (str ''Some ''), Tag ''strong'' [] [Text (str ''bold'')],
                     Text (str '' text.'')]] = str ''Someboldtext.''"
    by (simp add: eval_soup)
  ultimately show ?thesis
    using assms by (simp add: markdown_to_text_def)
qed

theorem bold_text_glued_witness:
  "markdown_to_text
     (rendering (str ''<h1>Heading</h1>\<newline><p>Some <strong>bold</strong> text.</p>'')
        [Tag ''h1'' [] [Text (str ''Heading'')],
         Text (str ''\<newline>''),
         Tag ''p'' [] [Text (str ''Some ''), Tag ''strong'' [] [Text (str ''bold'')],
                       Text (str '' text.'')]])
     (str ''# Heading\<newline>\<newline>Some **bold** text.'') = str ''Someboldtext.''"
  using bold_text_glued [of
      "rendering (str ''<h1>Heading</h1>\<newline><p>Some <strong>bold</strong> text.</p>'')
        [Tag ''h1'' [] [Text (str ''Heading'')],
         Text (str ''\<newline>''),
         Tag ''p'' [] [Text (str ''Some ''), Tag ''strong'' [] [Text (str ''bold'')],
                       Text (str '' text.'')]]"]
  by (simp add: rendering_def)

text \<open>
  Claim C4. \<^verbatim>\<open>markdown(markdown_string)\<close> is called with no extension, and pipe tables are
  an extension of the renderer: it turns the three lines of the table into one paragraph.
  No \<^verbatim>\<open>table\<close> tag is there to remove, and \<^verbatim>\<open>markdown_to_text\<close> returns the three lines
  as they are.
\<close>

theorem pipe_table_kept:
  assumes "markdown lib (str ''| a | b |\<newline>|---|---|\<newline>| 1 | 2 |'') =
             str ''<p>| a | b |\<newline>|---|---|\<newline>| 1 | 2 |</p>''"
    and "BeautifulSoup lib (str ''<p>| a | b |\<newline>|---|---|\<newline>| 1 | 2 |</p>'') =
           [Tag ''p'' [] [Text (str ''| a | b |\<newline>|---|---|\<newline>| 1 | 2 |'')]]"
  shows "markdown_to_text lib (str ''| a | b |\<newline>|---|---|\<newline>| 1 | 2 |'') =
           str ''| a | b |\<newline>|---|---|\<newline>| 1 | 2 |''"
proof -
  have "sub_fenced_code True (str ''| a | b |\<newline>|---|---|\<newline>| 1 | 2 |'') =
          str ''| a | b |\<newline>|---|---|\<newline>| 1 | 2 |''"
    by (simp add: eval_fence)
  moreover have
    "soup_to_text [Tag ''p'' [] [Text (str ''| a | b |\<newline>|---|---|\<newline>| 1 | 2 |'')]] =
       str ''| a | b |\<newline>|---|---|\<newline>| 1 | 2 |''"
    by (simp add: eval_soup)
  ultimately show ?thesis
    using assms by (simp add: markdown_to_text_def)
qed

theorem pipe_table_kept_witness:
  "markdown_to_text
     (rendering (str ''<p>| a | b |\<newline>|---|---|\<newline>| 1 | 2 |</p>'')
        [Tag ''p'' [] [Text (str ''| a | b |\<newline>|---|---|\<newline>| 1 | 2 |'')]])
     (str ''| a | b |\<newline>|---|---|\<newline>| 1 | 2 |'') =
     str ''| a | b |\<newline>|---|---|\<newline>| 1 | 2 |''"
  using pipe_table_kept [of
      "rendering (str ''<p>| a | b |\<newline>|---|---|\<newline>| 1 | 2 |</p>'')
        [Tag ''p'' [] [Text (str ''| a | b |\<newline>|---|---|\<newline>| 1 | 2 |'')]]"]
  by (simp add: rendering_def)

end
